theory Spec2Isabelle
  imports Complex_Main "HOL-Library.Multiset" "HOL-Library.Sublist"
begin

section \<open>Canteen ordering: orders, pickup tokens, status history and the daily report\<close>

text \<open>
  A shallow embedding of the order subsystem of the canteen application: the cart totals and
  \<open>createOrder\<close>, \<open>getOrderByToken\<close>, \<open>getActiveOrders\<close> and \<open>updateOrderStatus\<close> of the
  order module, \<open>generateToken\<close> and \<open>generateId\<close> of \<open>js/utils.js\<close>, and \<open>getDailyReport\<close>
  of \<open>js/admin.js\<close>.

  Conventions of the embedding.
  \<^item> A JavaScript number that is an amount or a quantity is an exact rational (\<open>number\<close>);
    the rounding of IEEE doubles is not modelled. Array lengths and counters are \<open>nat\<close>.
  \<^item> A \<open>Date\<close> is its time value, the milliseconds since the epoch, an \<open>int\<close>. The string
    \<open>d.toISOString()\<close> names exactly that instant and \<open>new Date(s)\<close> reads it back, so a stored
    ISO string is modelled by the instant itself.
  \<^item> The local calendar of the browser is a parameter (\<open>calendar\<close>): it gives the local year,
    month (from 0) and day of the month of an instant. \<open>d.toDateString()\<close> prints the local
    weekday, month, day and year; the code only compares two such strings for equality, which
    is equality of the local year, month and day, so \<open>toDateString\<close> returns these fields.
  \<^item> Every \<open>new Date()\<close> and \<open>Date.now()\<close> is a separate reading of the clock: the n-th reading
    since the start returns \<open>clock E n\<close>, and the world counts the readings made so far.
    \<open>Math.random()\<close> is read in the same way from \<open>random\<close>.
  \<^item> \<open>localStorage\<close> is a record with one field per key; a key that was never written reads as
    \<open>None\<close> (\<open>getFromStorage\<close> returns \<open>null\<close>). Writes are taken to succeed.
\<close>

subsection \<open>Data model\<close>

type_synonym number = rat
type_synonym instant = int

record civil =
  fullYear :: int
  month0 :: nat
  dayOfMonth :: nat

record env =
  clock :: "nat \<Rightarrow> instant"
  random :: "nat \<Rightarrow> string"
  calendar :: "instant \<Rightarrow> civil"

record user =
  user_id :: string
  user_name :: string
  user_email :: string
  user_role :: string

record cart_item =
  ci_id :: string
  ci_name :: string
  ci_price :: number
  ci_image :: string
  ci_quantity :: number

record order_item =
  oi_id :: string
  oi_name :: string
  oi_price :: number
  oi_quantity :: number
  oi_subtotal :: number

record history_entry =
  h_status :: string
  h_timestamp :: instant
  h_note :: string

record Order =
  oid :: string
  token :: string
  userId :: string
  userName :: string
  userEmail :: string
  items :: "order_item list"
  subtotal :: number
  tax :: number
  total :: number
  status :: string
  statusHistory :: "history_entry list"
  createdAt :: instant
  updatedAt :: instant
  completedAt :: "instant option"

record world =
  CART :: "cart_item list option"
  ORDERS :: "Order list option"
  CURRENT_USER :: "user option"
  reads :: nat
  draws :: nat

record result =
  success :: bool
  message :: string
  res_order :: "Order option"

record totals =
  t_subtotal :: number
  t_tax :: number
  t_serviceFee :: number
  t_total :: number

text \<open>The constants of \<open>ORDER_STATUS\<close>.\<close>

definition PENDING :: string where "PENDING = ''pending''"
definition PREPARING :: string where "PREPARING = ''preparing''"
definition READY :: string where "READY = ''ready''"
definition COMPLETED :: string where "COMPLETED = ''completed''"
definition CANCELLED :: string where "CANCELLED = ''cancelled''"

subsection \<open>Clock, calendar and number formatting\<close>

definition now :: "env \<Rightarrow> world \<Rightarrow> instant \<times> world" where
  "now E w = (clock E (reads w), w\<lparr>reads := Suc (reads w)\<rparr>)"

definition getFullYear :: "env \<Rightarrow> instant \<Rightarrow> int" where
  "getFullYear E d = fullYear (calendar E d)"

definition getMonth :: "env \<Rightarrow> instant \<Rightarrow> nat" where
  "getMonth E d = month0 (calendar E d)"

definition getDate :: "env \<Rightarrow> instant \<Rightarrow> nat" where
  "getDate E d = dayOfMonth (calendar E d)"

definition toDateString :: "env \<Rightarrow> instant \<Rightarrow> civil" where
  "toDateString E d = calendar E d"

text \<open>\<open>n.toString()\<close> and \<open>n.toString(36)\<close> of an integer, and \<open>s.padStart(n, c)\<close>.\<close>

definition digitChar :: "nat \<Rightarrow> char" where
  "digitChar d = (if d < 10 then char_of (48 + d) else char_of (87 + d))"

fun digits10 :: "nat \<Rightarrow> string" where
  "digits10 n = (if n < 10 then [digitChar n] else digits10 (n div 10) @ [digitChar (n mod 10)])"

fun digits36 :: "nat \<Rightarrow> string" where
  "digits36 n = (if n < 36 then [digitChar n] else digits36 (n div 36) @ [digitChar (n mod 36)])"

declare digits10.simps [simp del] digits36.simps [simp del]

definition toString :: "int \<Rightarrow> string" where
  "toString i = (if i < 0 then ''-'' @ digits10 (nat (- i)) else digits10 (nat i))"

definition toString36 :: "int \<Rightarrow> string" where
  "toString36 i = (if i < 0 then ''-'' @ digits36 (nat (- i)) else digits36 (nat i))"

definition padStart :: "nat \<Rightarrow> char \<Rightarrow> string \<Rightarrow> string" where
  "padStart n c s = replicate (n - length s) c @ s"

subsection \<open>Storage access\<close>

definition getCart :: "world \<Rightarrow> cart_item list" where
  "getCart w = (case CART w of None \<Rightarrow> [] | Some c \<Rightarrow> c)"

definition saveCart :: "cart_item list \<Rightarrow> world \<Rightarrow> world" where
  "saveCart cart w = w\<lparr>CART := Some cart\<rparr>"

definition clearCart :: "world \<Rightarrow> world" where
  "clearCart w = saveCart [] w"

definition getCurrentUser :: "world \<Rightarrow> user option" where
  "getCurrentUser w = CURRENT_USER w"

definition getAllOrders :: "world \<Rightarrow> Order list" where
  "getAllOrders w = (case ORDERS w of None \<Rightarrow> [] | Some os \<Rightarrow> os)"

subsection \<open>Cart totals\<close>

definition getCartSubtotal :: "world \<Rightarrow> number" where
  "getCartSubtotal w =
     foldl (\<lambda>total item. total + ci_price item * ci_quantity item) 0 (getCart w)"

definition getCartTotals :: "world \<Rightarrow> totals" where
  "getCartTotals w =
     (let subtotal = getCartSubtotal w;
          tax = 0;
          serviceFee = 0;
          total = subtotal + tax + serviceFee
      in \<lparr>t_subtotal = subtotal, t_tax = tax, t_serviceFee = serviceFee, t_total = total\<rparr>)"

subsection \<open>Token and id generation\<close>

definition generateToken :: "env \<Rightarrow> world \<Rightarrow> string \<times> world" where
  "generateToken E w =
     (let (date, w1) = now E w;
          dateStr = toString (getFullYear E date)
                    @ padStart 2 (CHR ''0'') (toString (int (getMonth E date + 1)))
                    @ padStart 2 (CHR ''0'') (toString (int (getDate E date)));
          orders = (case ORDERS w1 of None \<Rightarrow> [] | Some os \<Rightarrow> os);
          todayOrders = filter (\<lambda>order. toDateString E (createdAt order) = toDateString E date)
                          orders;
          sequenceNum = padStart 4 (CHR ''0'') (toString (int (length todayOrders + 1)))
      in (''TKN-'' @ dateStr @ ''-'' @ sequenceNum, w1))"

text \<open>
  \<open>generateId\<close> joins the clock in base 36 and the digits that
  \<open>Math.random().toString(36).substr(2)\<close> leaves, which \<open>random\<close> supplies.
\<close>

definition generateId :: "env \<Rightarrow> world \<Rightarrow> string \<times> world" where
  "generateId E w =
     (let (t, w1) = now E w;
          r = random E (draws w1);
          w2 = w1\<lparr>draws := Suc (draws w1)\<rparr>
      in (toString36 t @ r, w2))"

subsection \<open>Creating an order\<close>

definition createOrder :: "env \<Rightarrow> world \<Rightarrow> result \<times> world" where
  "createOrder E w =
     (let cart = getCart w;
          currentUser = getCurrentUser w
      in if length cart = 0
         then (\<lparr>success = False, message = ''Cart is empty'', res_order = None\<rparr>, w)
         else (case currentUser of
             None \<Rightarrow>
               (\<lparr>success = False, message = ''Please login to place order'', res_order = None\<rparr>, w)
           | Some u \<Rightarrow>
               (let tot = getCartTotals w;
                    (tok, w1) = generateToken E w;
                    (new_id, w2) = generateId E w1;
                    (t_hist, w3) = now E w2;
                    (t_created, w4) = now E w3;
                    (t_updated, w5) = now E w4;
                    order = \<lparr>oid = new_id,
                             token = tok,
                             userId = user_id u,
                             userName = user_name u,
                             userEmail = user_email u,
                             items = map (\<lambda>item. \<lparr>oi_id = ci_id item,
                                                    oi_name = ci_name item,
                                                    oi_price = ci_price item,
                                                    oi_quantity = ci_quantity item,
                                                    oi_subtotal = ci_price item * ci_quantity item\<rparr>)
                                         cart,
                             subtotal = t_subtotal tot,
                             tax = t_tax tot,
                             total = t_total tot,
                             status = PENDING,
                             statusHistory = [\<lparr>h_status = PENDING,
                                               h_timestamp = t_hist,
                                               h_note = ''Order placed''\<rparr>],
                             createdAt = t_created,
                             updatedAt = t_updated,
                             completedAt = None\<rparr>;
                    orders = (case ORDERS w5 of None \<Rightarrow> [] | Some os \<Rightarrow> os);
                    w6 = w5\<lparr>ORDERS := Some (orders @ [order])\<rparr>;
                    w7 = clearCart w6
                in (\<lparr>success = True, message = ''Order placed successfully!'',
                     res_order = Some order\<rparr>, w7))))"

subsection \<open>Queries\<close>

definition getOrderByToken :: "world \<Rightarrow> string \<Rightarrow> Order option" where
  "getOrderByToken w tok = find (\<lambda>order. token order = tok) (getAllOrders w)"

text \<open>
  \<open>Array.prototype.sort\<close> with a comparator is stable: an element is placed before the first
  element it does not compare greater than.
\<close>

fun insert_cmp :: "('a \<Rightarrow> 'a \<Rightarrow> int) \<Rightarrow> 'a \<Rightarrow> 'a list \<Rightarrow> 'a list" where
  "insert_cmp cmp x [] = [x]"
| "insert_cmp cmp x (y # ys) = (if cmp x y \<le> 0 then x # y # ys else y # insert_cmp cmp x ys)"

definition sort_cmp :: "('a \<Rightarrow> 'a \<Rightarrow> int) \<Rightarrow> 'a list \<Rightarrow> 'a list" where
  "sort_cmp cmp xs = foldr (insert_cmp cmp) xs []"

definition getActiveOrders :: "world \<Rightarrow> Order list" where
  "getActiveOrders w =
     (let orders = getAllOrders w;
          activeStatuses = [PENDING, PREPARING, READY]
      in sort_cmp (\<lambda>a b. createdAt a - createdAt b)
           (filter (\<lambda>order. status order \<in> set activeStatuses) orders))"

subsection \<open>Status transitions\<close>

fun findIndex :: "('a \<Rightarrow> bool) \<Rightarrow> 'a list \<Rightarrow> nat option" where
  "findIndex p [] = None"
| "findIndex p (x # xs) = (if p x then Some 0 else map_option Suc (findIndex p xs))"

definition updateOrderStatus ::
  "env \<Rightarrow> string \<Rightarrow> string \<Rightarrow> string \<Rightarrow> world \<Rightarrow> result \<times> world" where
  "updateOrderStatus E orderId newStatus note w =
     (let orders = getAllOrders w
      in case findIndex (\<lambda>ord. oid ord = orderId) orders of
           None \<Rightarrow> (\<lparr>success = False, message = ''Order not found'', res_order = None\<rparr>, w)
         | Some orderIndex \<Rightarrow>
             (let order = orders ! orderIndex;
                  (t1, w1) = now E w;
                  order1 = order\<lparr>statusHistory := statusHistory order @
                             [\<lparr>h_status = newStatus,
                               h_timestamp = t1,
                               h_note = (if note = [] then ''Status changed to '' @ newStatus
                                         else note)\<rparr>]\<rparr>;
                  order2 = order1\<lparr>status := newStatus\<rparr>;
                  (t2, w2) = now E w1;
                  order3 = order2\<lparr>updatedAt := t2\<rparr>;
                  (order4, w3) =
                     (if newStatus = COMPLETED
                      then (let (t3, w') = now E w2 in (order3\<lparr>completedAt := Some t3\<rparr>, w'))
                      else (order3, w2));
                  w4 = w3\<lparr>ORDERS := Some (orders[orderIndex := order4])\<rparr>
              in (\<lparr>success = True, message = ''Order status updated to '' @ newStatus,
                   res_order = Some order4\<rparr>, w4)))"

subsection \<open>Daily report\<close>



subsection \<open>Sequences of operations\<close>

text \<open>
  What the pages do with the order collection, one call after the other: a customer with a
  filled cart places an order, or somebody changes the status of an order.
\<close>

datatype action =
  Place "cart_item list" user
| Transition string string string

fun step :: "env \<Rightarrow> action \<Rightarrow> world \<Rightarrow> result \<times> world" where
  "step E (Place cart u) w = createOrder E (w\<lparr>CART := Some cart, CURRENT_USER := Some u\<rparr>)"
| "step E (Transition orderId newStatus note) w = updateOrderStatus E orderId newStatus note w"

fun run :: "env \<Rightarrow> action list \<Rightarrow> world \<Rightarrow> world" where
  "run E [] w = w"
| "run E (a # as) w = run E as (snd (step E a w))"

fun isTransition :: "action \<Rightarrow> bool" where
  "isTransition (Transition i s n) = True"
| "isTransition (Place c u) = False"

text \<open>A transition whose new status is \<open>completed\<close>.\<close>

fun completes :: "action \<Rightarrow> bool" where
  "completes (Transition i s n) = (s = COMPLETED)"
| "completes (Place c u) = False"

text \<open>An action that creates an order: a customer with a cart that is not empty.\<close>

fun places :: "action \<Rightarrow> bool" where
  "places (Place c u) = (c \<noteq> [])"
| "places (Transition i s n) = False"

subsection \<open>The status invariant\<close>

text \<open>The status of an order is the status of the last entry of its history.\<close>

definition statusMatchesHistory :: "Order \<Rightarrow> bool" where
  "statusMatchesHistory x =
     (statusHistory x \<noteq> [] \<and> status x = h_status (last (statusHistory x)))"

text \<open>
  A later collection carries an earlier one on: no order is lost, every history is extended
  at its end only, an order that met the invariant still meets it, and the orders that were
  added meet it.
\<close>

definition carriesOn :: "Order list \<Rightarrow> Order list \<Rightarrow> bool" where
  "carriesOn os os' =
     (length os \<le> length os'
      \<and> (\<forall>k<length os. prefix (statusHistory (os ! k)) (statusHistory (os' ! k))
                        \<and> (statusMatchesHistory (os ! k) \<longrightarrow> statusMatchesHistory (os' ! k)))
      \<and> (\<forall>k. length os \<le> k \<and> k < length os' \<longrightarrow> statusMatchesHistory (os' ! k)))"

subsection \<open>Reading a token\<close>

definition isDigit :: "char \<Rightarrow> bool" where
  "isDigit c = (48 \<le> (of_char c :: nat) \<and> (of_char c :: nat) \<le> 57)"

definition parseNat :: "string \<Rightarrow> nat" where
  "parseNat s = foldl (\<lambda>a c. 10 * a + (of_char c - 48)) 0 s"

text \<open>The number after the last hyphen of a token.\<close>

definition tokenSeq :: "string \<Rightarrow> nat" where
  "tokenSeq s = parseNat (rev (takeWhile (\<lambda>c. c \<noteq> CHR ''-'') (rev s)))"

text \<open>The shape \<open>TKN-YYYYMMDD-NNNN\<close>: seventeen characters, digits where the letters Y, M, D, N stand.\<close>

definition tokenFormat :: "string \<Rightarrow> bool" where
  "tokenFormat s =
     (length s = 17 \<and> take 4 s = ''TKN-'' \<and> list_all isDigit (take 8 (drop 4 s))
      \<and> s ! 12 = CHR ''-'' \<and> list_all isDigit (drop 13 s))"

text \<open>The number of stored orders that were created on the calendar day \<open>D\<close>.\<close>

definition sameDayCount :: "env \<Rightarrow> civil \<Rightarrow> Order list \<Rightarrow> nat" where
  "sameDayCount E D os = length (filter (\<lambda>x. toDateString E (createdAt x) = D) os)"

text \<open>The token that \<open>generateToken\<close> composes for the day \<open>D\<close> and the sequence number \<open>n\<close>.\<close>

definition tokenOf :: "civil \<Rightarrow> nat \<Rightarrow> string" where
  "tokenOf D n =
     ''TKN-'' @ toString (fullYear D)
       @ padStart 2 (CHR ''0'') (toString (int (month0 D + 1)))
       @ padStart 2 (CHR ''0'') (toString (int (dayOfMonth D)))
       @ ''-'' @ padStart 4 (CHR ''0'') (toString (int n))"

subsection \<open>Example inputs\<close>

text \<open>
  The calendar of a browser whose time zone is UTC: the proleptic Gregorian date of a day
  number (days since 1970-01-01), and the day number of an instant.
\<close>

definition civilFromDays :: "int \<Rightarrow> civil" where
  "civilFromDays n =
     (let z = n + 719468;
          era = z div 146097;
          doe = z mod 146097;
          yoe = (doe - doe div 1460 + doe div 36524 - doe div 146096) div 365;
          doy = doe - (365 * yoe + yoe div 4 - yoe div 100);
          mp = (5 * doy + 2) div 153;
          d = doy - (153 * mp + 2) div 5 + 1;
          m = (if mp < 10 then mp + 3 else mp - 9);
          y = yoe + era * 400 + (if m \<le> 2 then 1 else 0)
      in \<lparr>fullYear = y, month0 = nat (m - 1), dayOfMonth = nat d\<rparr>)"

definition utcCalendar :: "instant \<Rightarrow> civil" where
  "utcCalendar t = civilFromDays (t div 86400000)"

text \<open>A clock that starts on 2026-01-01 at 12:00:00.000 UTC and advances by 1 ms per reading.\<close>

definition exEnv :: env where
  "exEnv = \<lparr>clock = (\<lambda>n. 1767268800000 + int n),
            random = (\<lambda>n. ''k3x'' @ digits36 n),
            calendar = utcCalendar\<rparr>"

definition exUser :: user where
  "exUser = \<lparr>user_id = ''U1'', user_name = ''Nimal'', user_email = ''nimal@example.com'',
             user_role = ''customer''\<rparr>"

definition exCart :: "cart_item list" where
  "exCart = [\<lparr>ci_id = ''A'', ci_name = ''Rice and Curry'', ci_price = 350, ci_image = [],
               ci_quantity = 2\<rparr>,
             \<lparr>ci_id = ''B'', ci_name = ''Kottu'', ci_price = 280, ci_image = [],
               ci_quantity = 1\<rparr>]"

definition exWorld :: world where
  "exWorld = \<lparr>CART = Some exCart, ORDERS = Some [], CURRENT_USER = Some exUser,
              reads = 0, draws = 0\<rparr>"

text \<open>A stored order that was placed at \<open>t\<close> and, unless still pending, moved on a minute later.\<close>

definition exOrder :: "string \<Rightarrow> string \<Rightarrow> string \<Rightarrow> instant \<Rightarrow> Order" where
  "exOrder i tok st t =
     \<lparr>oid = i, token = tok, userId = ''U1'', userName = ''Nimal'',
      userEmail = ''nimal@example.com'',
      items = [\<lparr>oi_id = ''A'', oi_name = ''Rice and Curry'', oi_price = 350, oi_quantity = 2,
                oi_subtotal = 700\<rparr>],
      subtotal = 700, tax = 0, total = 700,
      status = st,
      statusHistory =
        \<lparr>h_status = PENDING, h_timestamp = t, h_note = ''Order placed''\<rparr> #
        (if st = PENDING then []
         else [\<lparr>h_status = st, h_timestamp = t + 60000, h_note = ''Status changed to '' @ st\<rparr>]),
      createdAt = t,
      updatedAt = (if st = PENDING then t else t + 60000),
      completedAt = (if st = COMPLETED then Some (t + 60000) else None)\<rparr>"

text \<open>After \<open>logoutUser\<close>: no current user and no cart.\<close>

definition exLoggedOut :: world where
  "exLoggedOut = \<lparr>CART = None, ORDERS = Some [], CURRENT_USER = None, reads = 0, draws = 0\<rparr>"

text \<open>A cart filled without logging in (\<open>addToCart\<close> does not ask for a user).\<close>

definition exAnonymous :: world where
  "exAnonymous = \<lparr>CART = Some exCart, ORDERS = Some [], CURRENT_USER = None,
                  reads = 0, draws = 0\<rparr>"

text \<open>A collection in which the second and the third order carry the same token.\<close>

definition exDuplicates :: world where
  "exDuplicates =
     \<lparr>CART = None,
      ORDERS = Some [exOrder ''o2'' ''TKN-20260101-0002'' PENDING 1767261600000,
                     exOrder ''o1'' ''TKN-20260101-0001'' PREPARING 1767258000000,
                     exOrder ''o3'' ''TKN-20260101-0001'' PENDING 1767265200000],
      CURRENT_USER = Some exUser, reads = 0, draws = 0\<rparr>"

text \<open>The world after the customer of \<open>exWorld\<close> has placed one order.\<close>

definition exPlaced :: world where
  "exPlaced = \<lparr>CART = Some [],
               ORDERS = Some [exOrder ''o1'' ''TKN-20260101-0001'' PENDING 1767268800003],
               CURRENT_USER = Some exUser, reads = 5, draws = 1\<rparr>"

text \<open>The scenario of the queue: one completed, one preparing, one cancelled, one pending.\<close>

definition exQueue :: world where
  "exQueue =
     \<lparr>CART = None,
      ORDERS = Some [exOrder ''o1'' ''TKN-20260101-0001'' COMPLETED 1767258000000,
                     exOrder ''o2'' ''TKN-20260101-0002'' PREPARING 1767265200000,
                     exOrder ''o3'' ''TKN-20260101-0003'' CANCELLED 1767261600000,
                     exOrder ''o4'' ''TKN-20260101-0004'' PENDING 1767263400000],
      CURRENT_USER = None, reads = 0, draws = 0\<rparr>"



text \<open>A day at the counter: the stored order is prepared, a second one comes in, the first is
  handed over.\<close>

definition exDay :: "action list" where
  "exDay = [Transition ''o1'' PREPARING ''Started preparing'',
            Transition ''o1'' READY ''Food is ready for pickup'',
            Place exCart exUser,
            Transition ''o1'' COMPLETED ''Order collected by customer'']"

text \<open>Two customers order while the first order is being prepared.\<close>

definition exLunch :: "action list" where
  "exLunch = [Place exCart exUser,
              Transition ''o1'' PREPARING ''Started preparing'',
              Place exCart exUser]"

definition exNewYear :: civil where
  "exNewYear = \<lparr>fullYear = 2026, month0 = 0, dayOfMonth = 1\<rparr>"

section \<open>Properties\<close>

subsection \<open>Helper lemmas\<close>



lemma createOrder_empty:
  "getCart w = [] \<Longrightarrow>
   createOrder E w = (\<lparr>success = False, message = ''Cart is empty'', res_order = None\<rparr>, w)"
  by (simp add: createOrder_def)

lemma createOrder_nouser:
  "getCart w \<noteq> [] \<Longrightarrow> getCurrentUser w = None \<Longrightarrow>
   createOrder E w =
     (\<lparr>success = False, message = ''Please login to place order'', res_order = None\<rparr>, w)"
  by (simp add: createOrder_def)

lemma generateToken_world: "snd (generateToken E w) = w\<lparr>reads := Suc (reads w)\<rparr>"
  by (simp add: generateToken_def now_def Let_def)

lemma generateId_world:
  "snd (generateId E w) = w\<lparr>reads := Suc (reads w), draws := Suc (draws w)\<rparr>"
  by (simp add: generateId_def now_def Let_def)

text \<open>The two outcomes of \<open>createOrder\<close>: nothing happens, or one order is appended.\<close>

lemma createOrder_cases:
  assumes "createOrder E w = (r, w')"
  shows "(\<not> success r \<and> res_order r = None \<and> w' = w
           \<and> (getCart w = [] \<or> getCurrentUser w = None))
       \<or> (\<exists>x. success r \<and> res_order r = Some x
             \<and> getCart w \<noteq> [] \<and> getCurrentUser w \<noteq> None
             \<and> getAllOrders w' = getAllOrders w @ [x]
             \<and> reads w' = reads w + 5
             \<and> token x = fst (generateToken E w)
             \<and> status x = PENDING
             \<and> statusHistory x = [\<lparr>h_status = PENDING, h_timestamp = clock E (reads w + 2),
                                    h_note = ''Order placed''\<rparr>]
             \<and> createdAt x = clock E (reads w + 3)
             \<and> completedAt x = None)"
proof (cases "getCart w = []")
  case True
  with assms show ?thesis by (auto simp: createOrder_empty)
next
  case ne: False
  show ?thesis
  proof (cases "getCurrentUser w")
    case None
    with ne assms show ?thesis by (auto simp: createOrder_nouser)
  next
    case (Some u)
    with ne assms show ?thesis
      by (auto simp: createOrder_def Let_def split_def generateToken_world generateId_world
          now_def getAllOrders_def clearCart_def saveCart_def eval_nat_numeral)
  qed
qed

lemma createOrder_appends:
  "\<exists>ys. getAllOrders (snd (createOrder E w)) = getAllOrders w @ ys \<and> length ys \<le> 1"
proof -
  obtain r w' where rw: "createOrder E w = (r, w')" by (cases "createOrder E w")
  from createOrder_cases [OF rw] rw show ?thesis by auto
qed

lemma findIndex_None: "findIndex p xs = None \<longleftrightarrow> (\<forall>x\<in>set xs. \<not> p x)"
  by (induction xs) auto

lemma findIndex_Some:
  "findIndex p xs = Some k \<Longrightarrow> k < length xs \<and> p (xs ! k) \<and> (\<forall>j<k. \<not> p (xs ! j))"
proof (induction xs arbitrary: k)
  case Nil
  then show ?case by simp
next
  case (Cons x xs)
  show ?case
  proof (cases "p x")
    case True
    with Cons.prems show ?thesis by simp
  next
    case False
    with Cons.prems obtain k' where k': "findIndex p xs = Some k'" "k = Suc k'"
      by auto
    from Cons.IH [OF k'(1)] False k'(2) show ?thesis
      by (auto simp: less_Suc_eq_0_disj)
  qed
qed

lemma updateOrderStatus_notfound:
  "findIndex (\<lambda>x. oid x = i) (getAllOrders w) = None \<Longrightarrow>
   updateOrderStatus E i s n w =
     (\<lparr>success = False, message = ''Order not found'', res_order = None\<rparr>, w)"
  by (simp add: updateOrderStatus_def)

text \<open>What a transition does to the first order with the given id.\<close>

lemma updateOrderStatus_found:
  assumes "findIndex (\<lambda>x. oid x = i) (getAllOrders w) = Some k"
    and "updateOrderStatus E i s n w = (r, w')"
  shows "\<exists>x'. success r \<and> res_order r = Some x'
           \<and> getAllOrders w' = (getAllOrders w)[k := x']
           \<and> reads w' = reads w + (if s = COMPLETED then 3 else 2)
           \<and> x' = (getAllOrders w ! k)
                 \<lparr>statusHistory := statusHistory (getAllOrders w ! k) @
                     [\<lparr>h_status = s, h_timestamp = clock E (reads w),
                       h_note = (if n = [] then ''Status changed to '' @ s else n)\<rparr>],
                   status := s,
                   updatedAt := clock E (reads w + 1),
                   completedAt := (if s = COMPLETED then Some (clock E (reads w + 2))
                                   else completedAt (getAllOrders w ! k))\<rparr>"
  using assms
  by (auto simp: updateOrderStatus_def Let_def split_def now_def getAllOrders_def
      eval_nat_numeral)

lemma find_first_match:
  "\<forall>p\<in>set pre. \<not> P p \<Longrightarrow> P x \<Longrightarrow> find P (pre @ x # post) = Some x"
  by (induction pre) auto

lemma findIndex_oid_None:
  "(\<forall>x\<in>set xs. oid x \<noteq> i) \<Longrightarrow> findIndex (\<lambda>x. oid x = i) xs = None"
  by (simp add: findIndex_None)

lemma findIndex_oid_Some:
  "\<exists>x\<in>set xs. oid x = i \<Longrightarrow> \<exists>k. findIndex (\<lambda>x. oid x = i) xs = Some k"
  using findIndex_None [of "\<lambda>x. oid x = i" xs] by (cases "findIndex (\<lambda>x. oid x = i) xs") auto

lemma transition_keeps_completedAt:
  assumes "s \<noteq> COMPLETED"
  shows "map completedAt (getAllOrders (snd (updateOrderStatus E i s n w)))
         = map completedAt (getAllOrders w)"
proof (cases "findIndex (\<lambda>x. oid x = i) (getAllOrders w)")
  case None
  then show ?thesis by (simp add: updateOrderStatus_notfound)
next
  case (Some k)
  from findIndex_Some [OF Some] have "k < length (getAllOrders w)" by simp
  then have "(map completedAt (getAllOrders w))[k := completedAt (getAllOrders w ! k)]
             = map completedAt (getAllOrders w)"
    by (simp add: list_update_same_conv)
  with updateOrderStatus_found [OF Some surjective_pairing] assms
  show ?thesis by (auto simp: map_update)
qed

lemma completion_sets_completedAt:
  assumes "findIndex (\<lambda>x. oid x = i) (getAllOrders w) = Some k"
  shows "map completedAt (getAllOrders (snd (updateOrderStatus E i COMPLETED n w)))
         = (map completedAt (getAllOrders w))[k := Some (clock E (reads w + 2))]"
  using updateOrderStatus_found [OF assms surjective_pairing]
  by (auto simp: map_update)

lemma run_no_completion:
  "\<forall>a\<in>set acts. isTransition a \<and> \<not> completes a \<Longrightarrow>
   map completedAt (getAllOrders (run E acts w)) = map completedAt (getAllOrders w)"
proof (induction acts arbitrary: w)
  case Nil
  then show ?case by simp
next
  case (Cons a acts)
  from Cons.prems obtain i s n where a: "a = Transition i s n" "s \<noteq> COMPLETED"
    by (cases a) auto
  then have "map completedAt (getAllOrders (snd (step E a w))) = map completedAt (getAllOrders w)"
    by (simp add: transition_keeps_completedAt)
  with Cons show ?case by simp
qed

lemma exPlaced_orders:
  "getAllOrders exPlaced = [exOrder ''o1'' ''TKN-20260101-0001'' PENDING 1767268800003]"
  by (simp add: getAllOrders_def exPlaced_def)

lemma insert_cmp_key: "insert_cmp (\<lambda>a b. f a - f b) x ys = insort_key f x ys"
  for f :: "'a \<Rightarrow> int"
  by (induction ys) simp_all

text \<open>Sorting with the difference of two keys as comparator is the stable sort by that key.\<close>

lemma sort_cmp_key: "sort_cmp (\<lambda>a b. f a - f b) xs = sort_key f xs"
  for f :: "'a \<Rightarrow> int"
  by (induction xs) (simp_all add: sort_cmp_def insert_cmp_key)

lemma getActiveOrders_sort_key:
  "getActiveOrders w =
     sort_key createdAt
       (filter (\<lambda>x. status x = PENDING \<or> status x = PREPARING \<or> status x = READY)
          (getAllOrders w))"
  by (simp add: getActiveOrders_def sort_cmp_key)

lemma mset_two_lists: "mset xs = {#a, b#} \<Longrightarrow> xs = [a, b] \<or> xs = [b, a]"
proof -
  assume m: "mset xs = {#a, b#}"
  then have "length xs = 2" by (metis size_mset size_add_mset size_empty numeral_2_eq_2)
  then obtain y z where xs: "xs = [y, z]"
    by (metis (no_types) One_nat_def Suc_1 Suc_length_conv length_0_conv)
  with m show ?thesis by (auto simp: add_eq_conv_ex)
qed


lemma getAllOrders_ORDERS_update [simp]: "getAllOrders (w\<lparr>ORDERS := Some xs\<rparr>) = xs"
  by (simp add: getAllOrders_def)

lemma exCalendar_days:
  "utcCalendar 1767268800000 = \<lparr>fullYear = 2026, month0 = 0, dayOfMonth = 1\<rparr>"
  "utcCalendar 1767258000000 = \<lparr>fullYear = 2026, month0 = 0, dayOfMonth = 1\<rparr>"
  "utcCalendar 1767261600000 = \<lparr>fullYear = 2026, month0 = 0, dayOfMonth = 1\<rparr>"
  "utcCalendar 1767265200000 = \<lparr>fullYear = 2026, month0 = 0, dayOfMonth = 1\<rparr>"
  "utcCalendar 1767225570000 = \<lparr>fullYear = 2025, month0 = 11, dayOfMonth = 31\<rparr>"
  "utcCalendar 1767225630000 = \<lparr>fullYear = 2026, month0 = 0, dayOfMonth = 1\<rparr>"
  by code_simp+

lemma carriesOn_refl: "carriesOn os os"
  by (auto simp: carriesOn_def)

lemma createOrder_orders:
  "getAllOrders (snd (createOrder E w)) = getAllOrders w
   \<or> (\<exists>x. getAllOrders (snd (createOrder E w)) = getAllOrders w @ [x]
          \<and> reads (snd (createOrder E w)) = reads w + 5
          \<and> token x = fst (generateToken E w)
          \<and> status x = PENDING
          \<and> map h_status (statusHistory x) = [PENDING]
          \<and> createdAt x = clock E (reads w + 3))"
proof -
  obtain r w' where rw: "createOrder E w = (r, w')" by (cases "createOrder E w")
  from createOrder_cases [OF rw] rw show ?thesis by auto
qed

lemma getAllOrders_other_keys [simp]:
  "getAllOrders (w\<lparr>CART := c, CURRENT_USER := u\<rparr>) = getAllOrders w"
  by (simp add: getAllOrders_def)


lemma carriesOn_trans:
  assumes "carriesOn os os'" and "carriesOn os' os''"
  shows "carriesOn os os''"
  unfolding carriesOn_def
proof (intro conjI allI impI)
  show "length os \<le> length os''"
    using assms by (simp add: carriesOn_def)
next
  fix k assume k: "k < length os"
  with assms have k': "k < length os'" by (simp add: carriesOn_def)
  from assms k k' have "prefix (statusHistory (os ! k)) (statusHistory (os' ! k))"
    "prefix (statusHistory (os' ! k)) (statusHistory (os'' ! k))"
    by (simp_all add: carriesOn_def)
  then show "prefix (statusHistory (os ! k)) (statusHistory (os'' ! k))"
    by (rule prefix_order.trans)
next
  fix k assume k: "k < length os" and m: "statusMatchesHistory (os ! k)"
  with assms have k': "k < length os'" by (simp add: carriesOn_def)
  from assms k k' m show "statusMatchesHistory (os'' ! k)"
    by (simp add: carriesOn_def)
next
  fix k assume k: "length os \<le> k \<and> k < length os''"
  show "statusMatchesHistory (os'' ! k)"
  proof (cases "k < length os'")
    case True
    with k assms(1) have "statusMatchesHistory (os' ! k)" by (simp add: carriesOn_def)
    with True assms(2) show ?thesis by (simp add: carriesOn_def)
  next
    case False
    with k assms(2) show ?thesis by (simp add: carriesOn_def)
  qed
qed

lemma createOrder_carriesOn:
  "carriesOn (getAllOrders w) (getAllOrders (snd (createOrder E w)))"
  using createOrder_orders [of E w]
proof
  assume "getAllOrders (snd (createOrder E w)) = getAllOrders w"
  then show ?thesis by (simp add: carriesOn_refl)
next
  assume "\<exists>x. getAllOrders (snd (createOrder E w)) = getAllOrders w @ [x]
          \<and> reads (snd (createOrder E w)) = reads w + 5
          \<and> token x = fst (generateToken E w)
          \<and> status x = PENDING
          \<and> map h_status (statusHistory x) = [PENDING]
          \<and> createdAt x = clock E (reads w + 3)"
  then obtain x where x: "getAllOrders (snd (createOrder E w)) = getAllOrders w @ [x]"
    "status x = PENDING" "map h_status (statusHistory x) = [PENDING]"
    by auto
  from x(3) obtain e where "statusHistory x = [e]" "h_status e = PENDING"
    by (auto simp: map_eq_Cons_conv)
  with x(2) have "statusMatchesHistory x"
    by (simp add: statusMatchesHistory_def)
  with x(1) show ?thesis
    by (auto simp: carriesOn_def nth_append less_Suc_eq)
qed

lemma updateOrderStatus_carriesOn:
  "carriesOn (getAllOrders w) (getAllOrders (snd (updateOrderStatus E i s n w)))"
proof (cases "findIndex (\<lambda>x. oid x = i) (getAllOrders w)")
  case None
  then show ?thesis by (simp add: updateOrderStatus_notfound carriesOn_refl)
next
  case (Some k)
  from updateOrderStatus_found [OF Some surjective_pairing]
  obtain x' where x': "getAllOrders (snd (updateOrderStatus E i s n w)) = (getAllOrders w)[k := x']"
    "status x' = s"
    "statusHistory x' = statusHistory (getAllOrders w ! k) @
        [\<lparr>h_status = s, h_timestamp = clock E (reads w),
          h_note = (if n = [] then ''Status changed to '' @ s else n)\<rparr>]"
    by auto
  have m: "statusMatchesHistory x'"
    using x'(2,3) by (simp add: statusMatchesHistory_def)
  have p: "prefix (statusHistory (getAllOrders w ! k)) (statusHistory x')"
    using x'(3) by simp
  show ?thesis
    unfolding x'(1) carriesOn_def using m p findIndex_Some [OF Some]
    by (auto simp: nth_list_update)
qed

lemma step_carriesOn: "carriesOn (getAllOrders w) (getAllOrders (snd (step E a w)))"
proof (cases a)
  case (Place c u)
  from createOrder_carriesOn [of "w\<lparr>CART := Some c, CURRENT_USER := Some u\<rparr>" E] Place
  show ?thesis by simp
next
  case (Transition i s n)
  then show ?thesis by (simp add: updateOrderStatus_carriesOn)
qed

lemma run_carriesOn: "carriesOn (getAllOrders w) (getAllOrders (run E acts w))"
proof (induction acts arbitrary: w)
  case Nil
  show ?case by (simp add: carriesOn_refl)
next
  case (Cons a acts)
  from step_carriesOn Cons.IH show ?case
    unfolding run.simps by (rule carriesOn_trans)
qed

lemma exDay_run:
  "map status (getAllOrders (run exEnv exDay exPlaced)) = [''completed'', ''pending'']"
  "map (\<lambda>x. map h_status (statusHistory x)) (getAllOrders (run exEnv exDay exPlaced))
     = [[''pending'', ''preparing'', ''ready'', ''completed''], [''pending'']]"
  by (simp_all add: exDay_def updateOrderStatus_def createOrder_def exPlaced_def
      getAllOrders_def getCart_def getCurrentUser_def exCart_def Let_def split_def exOrder_def
      now_def generateToken_world generateId_world clearCart_def saveCart_def
      PENDING_def PREPARING_def READY_def COMPLETED_def)

lemma of_char_digitChar: "d < 10 \<Longrightarrow> (of_char (digitChar d) :: nat) = 48 + d"
  by (simp add: digitChar_def)

lemma isDigit_digitChar: "d < 10 \<Longrightarrow> isDigit (digitChar d)"
  by (simp add: isDigit_def of_char_digitChar)

lemma digits10_isDigit: "list_all isDigit (digits10 n)"
proof (induction n rule: digits10.induct)
  case (1 n)
  show ?case
  proof (cases "n < 10")
    case True
    then show ?thesis by (simp add: digits10.simps [of n] isDigit_digitChar)
  next
    case False
    with 1 show ?thesis by (simp add: digits10.simps [of n] isDigit_digitChar)
  qed
qed

lemma parseNat_snoc: "parseNat (s @ [c]) = 10 * parseNat s + (of_char c - 48)"
  by (simp add: parseNat_def)

lemma parseNat_digits10: "parseNat (digits10 n) = n"
proof (induction n rule: digits10.induct)
  case (1 n)
  show ?case
  proof (cases "n < 10")
    case True
    then show ?thesis by (simp add: digits10.simps [of n] parseNat_def of_char_digitChar)
  next
    case False
    with 1 have "parseNat (digits10 (n div 10)) = n div 10" by simp
    with False show ?thesis
      by (simp add: digits10.simps [of n] parseNat_snoc of_char_digitChar)
  qed
qed

lemma foldl_zeros:
  "foldl (\<lambda>a c. 10 * a + (of_char c - 48)) (0::nat) (replicate k (CHR ''0'')) = 0"
  by (induction k) simp_all

lemma parseNat_padStart: "parseNat (padStart k (CHR ''0'') s) = parseNat s"
  by (simp add: parseNat_def padStart_def foldl_zeros)

lemma toString_nat: "toString (int n) = digits10 n"
  by (simp add: toString_def)

lemma isDigit_not_hyphen: "isDigit c \<Longrightarrow> c \<noteq> CHR ''-''"
  by (auto simp: isDigit_def)

lemma isDigit_zero: "isDigit (CHR ''0'')"
  by (simp add: isDigit_def)

lemma padStart_isDigit: "list_all isDigit s \<Longrightarrow> list_all isDigit (padStart k (CHR ''0'') s)"
  by (auto simp: padStart_def list_all_iff isDigit_zero)

lemma tokenSeq_suffix:
  assumes "list_all isDigit s"
  shows "tokenSeq (p @ ''-'' @ s) = parseNat s"
proof -
  have "\<forall>c\<in>set (rev s). c \<noteq> CHR ''-''"
    using assms by (auto simp: list_all_iff isDigit_not_hyphen)
  then have "takeWhile (\<lambda>c. c \<noteq> CHR ''-'') (rev s @ CHR ''-'' # rev p) = rev s"
    by (simp add: takeWhile_tail)
  then show ?thesis by (simp add: tokenSeq_def)
qed

lemma tokenSeq_tokenOf: "tokenSeq (tokenOf D n) = n"
proof -
  define P where "P = ''TKN-'' @ toString (fullYear D)
       @ padStart 2 (CHR ''0'') (toString (int (month0 D + 1)))
       @ padStart 2 (CHR ''0'') (toString (int (dayOfMonth D)))"
  define S where "S = padStart 4 (CHR ''0'') (toString (int n))"
  have d: "list_all isDigit S"
    by (simp add: S_def toString_nat padStart_isDigit digits10_isDigit)
  have "tokenOf D n = P @ ''-'' @ S"
    by (simp add: tokenOf_def P_def S_def)
  with tokenSeq_suffix [OF d, of P] have "tokenSeq (tokenOf D n) = parseNat S"
    by simp
  then show ?thesis
    by (simp add: S_def parseNat_padStart toString_nat parseNat_digits10)
qed

lemma tokenOf_inj: "tokenOf D m = tokenOf D n \<Longrightarrow> m = n"
  by (metis tokenSeq_tokenOf)

lemma generateToken_value:
  "fst (generateToken E w) =
     tokenOf (toDateString E (clock E (reads w)))
       (sameDayCount E (toDateString E (clock E (reads w))) (getAllOrders w) + 1)"
  by (simp add: generateToken_def now_def Let_def tokenOf_def sameDayCount_def getAllOrders_def
      getFullYear_def getMonth_def getDate_def toDateString_def)

lemma digits10_length_le: "0 < k \<Longrightarrow> n < 10 ^ k \<Longrightarrow> length (digits10 n) \<le> k"
proof (induction k arbitrary: n)
  case 0
  then show ?case by simp
next
  case (Suc k)
  show ?case
  proof (cases "n < 10")
    case True
    then show ?thesis by (simp add: digits10.simps [of n])
  next
    case False
    then have k: "0 < k" using Suc.prems by (cases k) auto
    from Suc.prems have "n div 10 < 10 ^ k" by (simp add: less_mult_imp_div_less mult.commute)
    with Suc.IH k have "length (digits10 (n div 10)) \<le> k" by simp
    with False show ?thesis by (simp add: digits10.simps [of n])
  qed
qed

lemma digits10_length_gt: "10 ^ k \<le> n \<Longrightarrow> k < length (digits10 n)"
proof (induction k arbitrary: n)
  case 0
  show ?case by (simp add: digits10.simps [of n])
next
  case (Suc k)
  have "(1::nat) \<le> 10 ^ k" by simp
  then have "(10::nat) \<le> 10 ^ Suc k" by simp
  with Suc.prems have n: "\<not> n < 10" by linarith
  from Suc.prems have "10 ^ k \<le> n div 10" by (simp add: less_eq_div_iff_mult_less_eq mult.commute)
  with Suc.IH have "k < length (digits10 (n div 10))" by simp
  with n show ?case by (simp add: digits10.simps [of n])
qed

lemma length_padStart: "length (padStart k c s) = max k (length s)"
  by (simp add: padStart_def)

lemma pad2_length: "n < 100 \<Longrightarrow> length (padStart 2 (CHR ''0'') (digits10 n)) = 2"
  using digits10_length_le [of 2 n] by (simp add: length_padStart)

lemma pad4_length: "n < 10000 \<Longrightarrow> length (padStart 4 (CHR ''0'') (digits10 n)) = 4"
  using digits10_length_le [of 4 n] by (simp add: length_padStart)

lemma year_length: "1000 \<le> n \<Longrightarrow> n < 10000 \<Longrightarrow> length (digits10 n) = 4"
  using digits10_length_le [of 4 n] digits10_length_gt [of 3 n] by simp

lemma tokenFormat_parts:
  assumes "length Y = 4" "length M = 2" "length Dd = 2" "length S = 4"
    and "list_all isDigit Y" "list_all isDigit M" "list_all isDigit Dd" "list_all isDigit S"
  shows "tokenFormat (''TKN-'' @ Y @ M @ Dd @ ''-'' @ S)"
  using assms by (simp add: tokenFormat_def nth_append)

lemma tokenFormat_tokenOf:
  assumes "1000 \<le> fullYear D" "fullYear D \<le> 9999" "month0 D \<le> 11" "dayOfMonth D \<le> 31"
    and "n \<le> 9999"
  shows "tokenFormat (tokenOf D n)"
proof -
  from assms(1) have y: "toString (fullYear D) = digits10 (nat (fullYear D))"
    by (simp add: toString_def)
  have "length (digits10 (nat (fullYear D))) = 4"
    using assms(1,2) by (intro year_length) auto
  moreover have "length (padStart 2 (CHR ''0'') (digits10 (month0 D + 1))) = 2"
    using assms(3) by (intro pad2_length) auto
  moreover have "length (padStart 2 (CHR ''0'') (digits10 (dayOfMonth D))) = 2"
    using assms(4) by (intro pad2_length) auto
  moreover have "length (padStart 4 (CHR ''0'') (digits10 n)) = 4"
    using assms(5) by (intro pad4_length) auto
  ultimately have "tokenFormat (''TKN-'' @ digits10 (nat (fullYear D))
       @ padStart 2 (CHR ''0'') (digits10 (month0 D + 1))
       @ padStart 2 (CHR ''0'') (digits10 (dayOfMonth D))
       @ ''-'' @ padStart 4 (CHR ''0'') (digits10 n))"
    by (intro tokenFormat_parts) (simp_all add: padStart_isDigit digits10_isDigit)
  moreover have "int (month0 D + 1) = int (month0 D) + 1" by simp
  ultimately show ?thesis
    unfolding tokenOf_def y toString_nat by simp
qed

lemma run_append: "run E (as @ bs) w = run E bs (run E as w)"
  by (induction as arbitrary: w) simp_all

lemma updateOrderStatus_reads: "reads w \<le> reads (snd (updateOrderStatus E i s n w))"
proof (cases "findIndex (\<lambda>x. oid x = i) (getAllOrders w)")
  case None
  then show ?thesis by (simp add: updateOrderStatus_notfound)
next
  case (Some k)
  from updateOrderStatus_found [OF Some surjective_pairing] show ?thesis by auto
qed

lemma transition_keeps_token_createdAt:
  "map token (getAllOrders (snd (updateOrderStatus E i s n w))) = map token (getAllOrders w)
   \<and> map createdAt (getAllOrders (snd (updateOrderStatus E i s n w)))
       = map createdAt (getAllOrders w)"
proof (cases "findIndex (\<lambda>x. oid x = i) (getAllOrders w)")
  case None
  then show ?thesis by (simp add: updateOrderStatus_notfound)
next
  case (Some k)
  from findIndex_Some [OF Some] have k: "k < length (getAllOrders w)" by simp
  then have "(map token (getAllOrders w))[k := token (getAllOrders w ! k)]
               = map token (getAllOrders w)"
    "(map createdAt (getAllOrders w))[k := createdAt (getAllOrders w ! k)]
               = map createdAt (getAllOrders w)"
    by (simp_all add: list_update_same_conv)
  with updateOrderStatus_found [OF Some surjective_pairing]
  show ?thesis by (auto simp: map_update)
qed

text \<open>One step leaves tokens and creation times alone, or appends one order.\<close>

lemma step_tokens:
  "reads w \<le> reads (snd (step E a w))
   \<and> ((\<not> places a
        \<and> map token (getAllOrders (snd (step E a w))) = map token (getAllOrders w)
        \<and> map createdAt (getAllOrders (snd (step E a w))) = map createdAt (getAllOrders w))
      \<or> (places a
        \<and> reads (snd (step E a w)) = reads w + 5
        \<and> map token (getAllOrders (snd (step E a w))) =
            map token (getAllOrders w) @
            [tokenOf (toDateString E (clock E (reads w)))
               (sameDayCount E (toDateString E (clock E (reads w))) (getAllOrders w) + 1)]
        \<and> map createdAt (getAllOrders (snd (step E a w))) =
            map createdAt (getAllOrders w) @ [clock E (reads w + 3)]))"
proof (cases a)
  case (Transition i s n)
  then show ?thesis
    using updateOrderStatus_reads [of w E i s n] transition_keeps_token_createdAt [of E i s n w]
    by simp
next
  case (Place c u)
  let ?w = "w\<lparr>CART := Some c, CURRENT_USER := Some u\<rparr>"
  obtain r w' where rw: "createOrder E ?w = (r, w')" by (cases "createOrder E ?w")
  have tok: "fst (generateToken E ?w) =
     tokenOf (toDateString E (clock E (reads w)))
       (sameDayCount E (toDateString E (clock E (reads w))) (getAllOrders w) + 1)"
    by (simp add: generateToken_value)
  show ?thesis
  proof (cases "c = []")
    case True
    then have "createOrder E ?w = (\<lparr>success = False, message = ''Cart is empty'',
                                      res_order = None\<rparr>, ?w)"
      by (simp add: createOrder_empty getCart_def)
    with Place True show ?thesis by simp
  next
    case False
    then have "getCart ?w \<noteq> []" "getCurrentUser ?w \<noteq> None"
      by (simp_all add: getCart_def getCurrentUser_def)
    with createOrder_cases [OF rw] obtain x where
      "getAllOrders w' = getAllOrders ?w @ [x]" "reads w' = reads ?w + 5"
      "token x = fst (generateToken E ?w)" "createdAt x = clock E (reads ?w + 3)"
      by auto
    with Place False rw tok show ?thesis by simp
  qed
qed

lemma sameDayCount_map:
  "sameDayCount E D os = length (filter (\<lambda>d. d = D) (map (\<lambda>x. toDateString E (createdAt x)) os))"
  by (simp add: sameDayCount_def filter_map comp_def)

lemma days_of_createdAt:
  "map createdAt os' = map createdAt os @ ts \<Longrightarrow>
   map (\<lambda>x. toDateString E (createdAt x)) os'
     = map (\<lambda>x. toDateString E (createdAt x)) os @ map (toDateString E) ts"
proof -
  assume a: "map createdAt os' = map createdAt os @ ts"
  have "map (\<lambda>x. toDateString E (createdAt x)) os' = map (toDateString E) (map createdAt os')"
    by simp
  also have "\<dots> = map (toDateString E) (map createdAt os) @ map (toDateString E) ts"
    unfolding a by simp
  finally show ?thesis by simp
qed

lemma run_reads: "reads w \<le> reads (run E acts w)"
proof (induction acts arbitrary: w)
  case Nil
  show ?case by simp
next
  case (Cons a acts)
  from step_tokens [of w E a] have "reads w \<le> reads (snd (step E a w))" by blast
  also from Cons.IH have "\<dots> \<le> reads (run E acts (snd (step E a w)))" .
  finally show ?case by simp
qed

lemma run_tokens:
  assumes "\<forall>n. reads w \<le> n \<and> n < reads (run E acts w) \<longrightarrow> toDateString E (clock E n) = D"
  shows "map token (getAllOrders (run E acts w)) =
           map token (getAllOrders w) @
           map (\<lambda>j. tokenOf D (sameDayCount E D (getAllOrders w) + 1 + j))
             [0..<length (filter places acts)]
       \<and> map (\<lambda>x. toDateString E (createdAt x)) (getAllOrders (run E acts w)) =
           map (\<lambda>x. toDateString E (createdAt x)) (getAllOrders w)
           @ replicate (length (filter places acts)) D"
  using assms
proof (induction acts rule: rev_induct)
  case Nil
  show ?case by simp
next
  case (snoc a acts)
  let ?mid = "run E acts w"
  let ?fin = "snd (step E a ?mid)"
  let ?m = "length (filter places acts)"
  have fin: "run E (acts @ [a]) w = ?fin" by (simp add: run_append)
  have r1: "reads w \<le> reads ?mid" by (rule run_reads)
  from step_tokens [of ?mid E a] have r2: "reads ?mid \<le> reads ?fin" by blast
  have day: "toDateString E (clock E n) = D" if "reads w \<le> n" "n < reads ?fin" for n
    using snoc.prems that by (simp add: fin)
  have "\<forall>n. reads w \<le> n \<and> n < reads ?mid \<longrightarrow> toDateString E (clock E n) = D"
    using day r2 by auto
  with snoc.IH have
    T: "map token (getAllOrders ?mid) = map token (getAllOrders w) @
           map (\<lambda>j. tokenOf D (sameDayCount E D (getAllOrders w) + 1 + j)) [0..<?m]"
    and C: "map (\<lambda>x. toDateString E (createdAt x)) (getAllOrders ?mid) =
           map (\<lambda>x. toDateString E (createdAt x)) (getAllOrders w) @ replicate ?m D"
    by simp_all
  have cnt: "sameDayCount E D (getAllOrders ?mid) = sameDayCount E D (getAllOrders w) + ?m"
    by (simp add: sameDayCount_map C)
  from step_tokens [of ?mid E a] show ?case
  proof (elim conjE disjE)
    assume "\<not> places a"
      "map token (getAllOrders ?fin) = map token (getAllOrders ?mid)"
      "map createdAt (getAllOrders ?fin) = map createdAt (getAllOrders ?mid)"
    moreover from this(3)
    have "map (\<lambda>x. toDateString E (createdAt x)) (getAllOrders ?fin)
          = map (\<lambda>x. toDateString E (createdAt x)) (getAllOrders ?mid)"
      using days_of_createdAt [of "getAllOrders ?fin" "getAllOrders ?mid" "[]" E] by simp
    ultimately show ?thesis
      unfolding fin using T C by simp
  next
    assume p: "places a" and rd: "reads ?fin = reads ?mid + 5"
      and t: "map token (getAllOrders ?fin) =
            map token (getAllOrders ?mid) @
            [tokenOf (toDateString E (clock E (reads ?mid)))
               (sameDayCount E (toDateString E (clock E (reads ?mid))) (getAllOrders ?mid) + 1)]"
      and c: "map createdAt (getAllOrders ?fin) =
            map createdAt (getAllOrders ?mid) @ [clock E (reads ?mid + 3)]"
    have d0: "toDateString E (clock E (reads ?mid)) = D"
      using day [of "reads ?mid"] r1 rd by simp
    have d3: "toDateString E (clock E (reads ?mid + 3)) = D"
      using day [of "reads ?mid + 3"] r1 rd by simp
    from t have "map token (getAllOrders ?fin) =
            map token (getAllOrders ?mid) @
            [tokenOf D (sameDayCount E D (getAllOrders w) + 1 + ?m)]"
      by (simp add: d0 cnt)
    moreover from days_of_createdAt [OF c, of E]
    have "map (\<lambda>x. toDateString E (createdAt x)) (getAllOrders ?fin)
          = map (\<lambda>x. toDateString E (createdAt x)) (getAllOrders ?mid) @ [D]"
      by (simp add: d3)
    ultimately show ?thesis
      unfolding fin using T C p by (simp add: replicate_append_same)
  qed
qed

lemma upt_offset: "map (\<lambda>j. k + j) [0..<n] = [k..<k + n]"
  by (induction n) simp_all

lemma utcCalendar_same_day:
  "t div 86400000 = t' div 86400000 \<Longrightarrow> utcCalendar t = utcCalendar t'"
  by (simp add: utcCalendar_def)

lemma exEnv_noon: "n < 43200000 \<Longrightarrow> toDateString exEnv (clock exEnv n) = exNewYear"
proof -
  assume "n < 43200000"
  then have "(1767268800000 + int n) div 86400000 = 1767268800000 div (86400000::int)"
    by simp
  then have "utcCalendar (1767268800000 + int n) = utcCalendar 1767268800000"
    by (rule utcCalendar_same_day)
  then show ?thesis
    by (simp add: toDateString_def exEnv_def exNewYear_def exCalendar_days)
qed

lemma exLunch_reads: "reads (run exEnv exLunch exPlaced) = 17"
  by (simp add: exLunch_def updateOrderStatus_def createOrder_def exPlaced_def
      getAllOrders_def getCart_def getCurrentUser_def exCart_def Let_def split_def exOrder_def
      now_def generateToken_world generateId_world clearCart_def saveCart_def
      PENDING_def PREPARING_def COMPLETED_def)

lemma exNewYear_tokens:
  "tokenOf exNewYear 2 = ''TKN-20260101-0002''"
  "tokenOf exNewYear 3 = ''TKN-20260101-0003''"
  by code_simp+

lemma exPlaced_count: "sameDayCount exEnv exNewYear (getAllOrders exPlaced) = 1"
  using exEnv_noon [of 3]
  by (simp add: sameDayCount_def exPlaced_orders exOrder_def exEnv_def)

subsection \<open>Order creation: totals and initial history\<close>



subsection \<open>Order creation: the two refusals\<close>

text \<open>
  C8 (amended). \<open>createOrder\<close> returns the failure \<open>Cart is empty\<close> whenever the cart is empty,
  and the failure \<open>Please login to place order\<close> whenever the cart is not empty and no
  current user is present (the cart is checked first). Either failure is a result with
  \<open>success = false\<close> and a message, and leaves the whole store as it was: the order
  collection and the cart are unchanged.
\<close>

theorem createOrder_failures:
  "(getCart w = [] \<longrightarrow>
      createOrder E w = (\<lparr>success = False, message = ''Cart is empty'', res_order = None\<rparr>, w))
   \<and> (getCart w \<noteq> [] \<and> getCurrentUser w = None \<longrightarrow>
      createOrder E w =
        (\<lparr>success = False, message = ''Please login to place order'', res_order = None\<rparr>, w))"
  by (simp add: createOrder_def)

theorem createOrder_failures_witness:
  "getCart exLoggedOut = []
   \<and> createOrder exEnv exLoggedOut =
       (\<lparr>success = False, message = ''Cart is empty'', res_order = None\<rparr>, exLoggedOut)
   \<and> getCart exAnonymous \<noteq> [] \<and> getCurrentUser exAnonymous = None
   \<and> createOrder exEnv exAnonymous =
       (\<lparr>success = False, message = ''Please login to place order'', res_order = None\<rparr>,
        exAnonymous)"
  using createOrder_failures [of exLoggedOut exEnv] createOrder_failures [of exAnonymous exEnv]
  by (simp add: getCart_def getCurrentUser_def exLoggedOut_def exAnonymous_def exCart_def)

text \<open>
  C8 as stated fails when both the cart is empty and nobody is logged in, the state that
  \<open>logoutUser\<close> leaves: no current user is present, yet the message is not the login one.
\<close>

theorem createOrder_no_user_counterexample:
  "getCurrentUser exLoggedOut = None
   \<and> message (fst (createOrder exEnv exLoggedOut)) \<noteq> ''Please login to place order''"
  by (simp add: createOrder_def getCart_def getCurrentUser_def exLoggedOut_def)

subsection \<open>Lookup by token\<close>

text \<open>
  C10. When several stored orders carry the token that is looked up, \<open>getOrderByToken\<close>
  returns one order, the match that stands first in the stored collection, whatever follows
  it; and since \<open>createOrder\<close> appends, the answer stays the same after any further order
  creation, so a later duplicate is never returned.
\<close>

theorem getOrderByToken_first:
  assumes "getAllOrders w = pre @ x # post"
    and "token x = tok"
    and "\<forall>p\<in>set pre. token p \<noteq> tok"
  shows "getOrderByToken w tok = Some x
       \<and> (\<forall>E. getOrderByToken (snd (createOrder E w)) tok = Some x)"
proof -
  have first: "getOrderByToken w tok = Some x"
    using assms by (simp add: getOrderByToken_def find_first_match)
  have "getOrderByToken (snd (createOrder E w)) tok = Some x" for E
  proof -
    obtain ys where "getAllOrders (snd (createOrder E w)) = getAllOrders w @ ys"
      using createOrder_appends by blast
    with assms have "getAllOrders (snd (createOrder E w)) = pre @ x # (post @ ys)"
      by simp
    with assms show ?thesis
      by (simp add: getOrderByToken_def find_first_match)
  qed
  with first show ?thesis by blast
qed

theorem getOrderByToken_first_witness:
  "getAllOrders exDuplicates =
     [exOrder ''o2'' ''TKN-20260101-0002'' PENDING 1767261600000]
     @ exOrder ''o1'' ''TKN-20260101-0001'' PREPARING 1767258000000
     # [exOrder ''o3'' ''TKN-20260101-0001'' PENDING 1767265200000]
   \<and> token (exOrder ''o3'' ''TKN-20260101-0001'' PENDING 1767265200000) = ''TKN-20260101-0001''
   \<and> getOrderByToken exDuplicates ''TKN-20260101-0001''
       = Some (exOrder ''o1'' ''TKN-20260101-0001'' PREPARING 1767258000000)"
  using getOrderByToken_first [of exDuplicates
      "[exOrder ''o2'' ''TKN-20260101-0002'' PENDING 1767261600000]"
      "exOrder ''o1'' ''TKN-20260101-0001'' PREPARING 1767258000000"
      "[exOrder ''o3'' ''TKN-20260101-0001'' PENDING 1767265200000]"
      "''TKN-20260101-0001''"]
  by (simp add: getAllOrders_def exDuplicates_def exOrder_def)

subsection \<open>Order creation: the first history entry\<close>

text \<open>
  C6 (amended). Every order that \<open>createOrder\<close> produces has at least one history entry; the
  first entry has status pending. Its timestamp and the order's \<open>createdAt\<close> are two
  successive readings of the clock (the third and the fourth that the creation makes), so
  the timestamp is not later than \<open>createdAt\<close> when the clock is monotonic.
\<close>

theorem createOrder_first_entry:
  assumes "createOrder E w = (r, w')" and "success r"
  shows "\<exists>x. res_order r = Some x \<and> statusHistory x \<noteq> []
           \<and> h_status (hd (statusHistory x)) = PENDING
           \<and> h_timestamp (hd (statusHistory x)) = clock E (reads w + 2)
           \<and> createdAt x = clock E (reads w + 3)
           \<and> (mono (clock E) \<longrightarrow> h_timestamp (hd (statusHistory x)) \<le> createdAt x)"
  using createOrder_cases [OF assms(1)] assms(2)
  by (auto simp: mono_def)

theorem createOrder_first_entry_witness:
  "success (fst (createOrder exEnv exWorld)) \<and> mono (clock exEnv)
   \<and> (\<exists>x. res_order (fst (createOrder exEnv exWorld)) = Some x \<and> statusHistory x \<noteq> []
         \<and> h_status (hd (statusHistory x)) = ''pending''
         \<and> h_timestamp (hd (statusHistory x)) = 1767268800002
         \<and> createdAt x = 1767268800003)"
proof -
  have s: "success (fst (createOrder exEnv exWorld))"
    by (simp add: createOrder_def Let_def split_def exWorld_def exCart_def getCart_def
        getCurrentUser_def)
  have m: "mono (clock exEnv)"
    by (simp add: mono_def exEnv_def)
  from createOrder_first_entry [OF surjective_pairing s]
  have "\<exists>x. res_order (fst (createOrder exEnv exWorld)) = Some x \<and> statusHistory x \<noteq> []
           \<and> h_status (hd (statusHistory x)) = PENDING
           \<and> h_timestamp (hd (statusHistory x)) = clock exEnv (reads exWorld + 2)
           \<and> createdAt x = clock exEnv (reads exWorld + 3)"
    by blast
  then have "\<exists>x. res_order (fst (createOrder exEnv exWorld)) = Some x \<and> statusHistory x \<noteq> []
         \<and> h_status (hd (statusHistory x)) = ''pending''
         \<and> h_timestamp (hd (statusHistory x)) = 1767268800002
         \<and> createdAt x = 1767268800003"
    by (simp add: exEnv_def exWorld_def PENDING_def)
  with s m show ?thesis by blast
qed

text \<open>
  C6 as stated fails when the clock moves on between the two readings: with a clock that
  advances by a millisecond per reading, the first entry's timestamp is not \<open>createdAt\<close>.
\<close>

theorem createOrder_first_entry_counterexample:
  "h_timestamp (hd (statusHistory (the (res_order (fst (createOrder exEnv exWorld))))))
   \<noteq> createdAt (the (res_order (fst (createOrder exEnv exWorld))))"
  by (simp add: createOrder_def Let_def split_def exWorld_def exCart_def getCart_def
      getCurrentUser_def generateToken_world generateId_world now_def exEnv_def)

subsection \<open>Status transitions: unknown ids and completion\<close>

text \<open>
  C4. \<open>updateOrderStatus\<close> with an id that no stored order has returns the failure
  \<open>Order not found\<close> and leaves the store as it was. With the new status completed and an id
  that a stored order has, it succeeds and the order it returns, which is stored, has a
  \<open>completedAt\<close> that is set; when the clock is monotonic and the order's \<open>createdAt\<close> is a
  reading that the clock gave earlier, \<open>completedAt\<close> is not before \<open>createdAt\<close>.
\<close>

theorem updateOrderStatus_unknown_and_completed:
  "((\<forall>x\<in>set (getAllOrders w). oid x \<noteq> i) \<longrightarrow>
      updateOrderStatus E i s n w =
        (\<lparr>success = False, message = ''Order not found'', res_order = None\<rparr>, w))
   \<and> ((\<exists>x\<in>set (getAllOrders w). oid x = i) \<longrightarrow>
      (\<exists>x' w' t. updateOrderStatus E i COMPLETED n w =
                    (\<lparr>success = True, message = ''Order status updated to completed'',
                      res_order = Some x'\<rparr>, w')
         \<and> oid x' = i \<and> x' \<in> set (getAllOrders w')
         \<and> completedAt x' = Some t
         \<and> (mono (clock E) \<and> (\<exists>m<reads w. createdAt x' = clock E m) \<longrightarrow> createdAt x' \<le> t)))"
proof (intro conjI impI)
  assume "\<forall>x\<in>set (getAllOrders w). oid x \<noteq> i"
  then show "updateOrderStatus E i s n w =
        (\<lparr>success = False, message = ''Order not found'', res_order = None\<rparr>, w)"
    by (simp add: updateOrderStatus_notfound findIndex_oid_None)
next
  assume "\<exists>x\<in>set (getAllOrders w). oid x = i"
  then obtain k where k: "findIndex (\<lambda>x. oid x = i) (getAllOrders w) = Some k"
    using findIndex_oid_Some by blast
  obtain r w' where rw: "updateOrderStatus E i COMPLETED n w = (r, w')"
    by (cases "updateOrderStatus E i COMPLETED n w")
  from updateOrderStatus_found [OF k rw] obtain x' where
    x': "success r" "res_order r = Some x'" "getAllOrders w' = (getAllOrders w)[k := x']"
      "completedAt x' = Some (clock E (reads w + 2))"
      "createdAt x' = createdAt (getAllOrders w ! k)" "oid x' = oid (getAllOrders w ! k)"
    by auto
  from findIndex_Some [OF k] have kk: "k < length (getAllOrders w)" "oid (getAllOrders w ! k) = i"
    by auto
  have msg: "message r = ''Order status updated to completed''"
    using rw k by (auto simp: updateOrderStatus_def Let_def split_def COMPLETED_def)
  have r: "r = \<lparr>success = True, message = ''Order status updated to completed'',
                      res_order = Some x'\<rparr>"
    using x'(1,2) msg by (cases r) simp
  have mem: "x' \<in> set (getAllOrders w')"
    using x'(3) kk(1) by (simp add: set_update_memI)
  have le: "mono (clock E) \<and> (\<exists>m<reads w. createdAt x' = clock E m)
             \<longrightarrow> createdAt x' \<le> clock E (reads w + 2)"
    by (auto simp: mono_def)
  from rw r x' kk mem le
  show "\<exists>x' w' t. updateOrderStatus E i COMPLETED n w =
                    (\<lparr>success = True, message = ''Order status updated to completed'',
                      res_order = Some x'\<rparr>, w')
         \<and> oid x' = i \<and> x' \<in> set (getAllOrders w')
         \<and> completedAt x' = Some t
         \<and> (mono (clock E) \<and> (\<exists>m<reads w. createdAt x' = clock E m) \<longrightarrow> createdAt x' \<le> t)"
    by blast
qed

theorem updateOrderStatus_unknown_and_completed_witness:
  "''zz'' \<notin> set (map oid (getAllOrders exPlaced))
   \<and> updateOrderStatus exEnv ''zz'' COMPLETED [] exPlaced =
       (\<lparr>success = False, message = ''Order not found'', res_order = None\<rparr>, exPlaced)
   \<and> (\<exists>x\<in>set (getAllOrders exPlaced). oid x = ''o1'')
   \<and> mono (clock exEnv)
   \<and> (\<exists>x' w' t. updateOrderStatus exEnv ''o1'' COMPLETED [] exPlaced =
          (\<lparr>success = True, message = ''Order status updated to completed'',
            res_order = Some x'\<rparr>, w')
        \<and> (\<exists>m<reads exPlaced. createdAt x' = clock exEnv m)
        \<and> completedAt x' = Some t \<and> createdAt x' \<le> t)"
proof -
  have h1: "\<forall>x\<in>set (getAllOrders exPlaced). oid x \<noteq> ''zz''"
    by (simp add: exPlaced_orders exOrder_def)
  have h2: "\<exists>x\<in>set (getAllOrders exPlaced). oid x = ''o1''"
    by (simp add: exPlaced_orders exOrder_def)
  have m: "mono (clock exEnv)"
    by (simp add: mono_def exEnv_def)
  from updateOrderStatus_unknown_and_completed [of exPlaced "''zz''" exEnv COMPLETED "[]"] h1
  have c1: "updateOrderStatus exEnv ''zz'' COMPLETED [] exPlaced =
       (\<lparr>success = False, message = ''Order not found'', res_order = None\<rparr>, exPlaced)"
    by blast
  from updateOrderStatus_unknown_and_completed [of exPlaced "''o1''" exEnv COMPLETED "[]"] h2
  obtain x' w' t where
    eq: "updateOrderStatus exEnv ''o1'' COMPLETED [] exPlaced =
          (\<lparr>success = True, message = ''Order status updated to completed'',
            res_order = Some x'\<rparr>, w')"
    and t: "completedAt x' = Some t"
    and le: "mono (clock exEnv) \<and> (\<exists>m<reads exPlaced. createdAt x' = clock exEnv m)
             \<longrightarrow> createdAt x' \<le> t"
    by blast
  have "createdAt x' = clock exEnv 3"
    using eq
    by (auto simp: updateOrderStatus_def exPlaced_orders Let_def split_def exOrder_def now_def
        exEnv_def)
  then have h3: "\<exists>m<reads exPlaced. createdAt x' = clock exEnv m"
    by (intro exI [of _ 3]) (simp add: exPlaced_def)
  with m le have le': "createdAt x' \<le> t" by blast
  have h1': "''zz'' \<notin> set (map oid (getAllOrders exPlaced))"
    by (simp add: exPlaced_orders exOrder_def)
  with h2 m c1 eq t h3 le' show ?thesis by blast
qed

subsection \<open>Status transitions: when \<open>completedAt\<close> is written\<close>

text \<open>
  C7 (amended). \<open>completedAt\<close> is written only by a transition whose new status is completed:
  a transition to any other status leaves the \<open>completedAt\<close> of every stored order as it
  was, and so does every sequence of such transitions. A transition to completed of an
  order that exists sets that order's \<open>completedAt\<close> to the clock reading it takes, whether
  or not the field was set before, and leaves the other orders' fields as they were.
\<close>

theorem completedAt_written_by_completion_only:
  "(s \<noteq> COMPLETED \<longrightarrow>
      map completedAt (getAllOrders (snd (updateOrderStatus E i s n w)))
        = map completedAt (getAllOrders w))
   \<and> ((\<forall>a\<in>set acts. isTransition a \<and> \<not> completes a) \<longrightarrow>
      map completedAt (getAllOrders (run E acts w)) = map completedAt (getAllOrders w))
   \<and> (findIndex (\<lambda>x. oid x = i) (getAllOrders w) = Some k \<longrightarrow>
      map completedAt (getAllOrders (snd (updateOrderStatus E i COMPLETED n w)))
        = (map completedAt (getAllOrders w))[k := Some (clock E (reads w + 2))])"
  by (simp add: transition_keeps_completedAt run_no_completion completion_sets_completedAt)

theorem completedAt_written_by_completion_only_witness:
  "PREPARING \<noteq> COMPLETED
   \<and> map completedAt (getAllOrders (snd (updateOrderStatus exEnv ''o1'' PREPARING [] exPlaced)))
       = [None]
   \<and> list_all (\<lambda>a. isTransition a \<and> \<not> completes a)
        [Transition ''o1'' PREPARING ''Started preparing'',
         Transition ''o1'' READY ''Food is ready for pickup'']
   \<and> map completedAt
        (getAllOrders (run exEnv [Transition ''o1'' PREPARING ''Started preparing'',
                                  Transition ''o1'' READY ''Food is ready for pickup'']
                         exPlaced))
       = [None]
   \<and> findIndex (\<lambda>x. oid x = ''o1'') (getAllOrders exPlaced) = Some 0
   \<and> map completedAt (getAllOrders (snd (updateOrderStatus exEnv ''o1'' COMPLETED [] exPlaced)))
       = [Some 1767268800007]"
proof -
  have h1: "PREPARING \<noteq> COMPLETED"
    by (simp add: PREPARING_def COMPLETED_def)
  have h2: "\<forall>a\<in>set [Transition ''o1'' PREPARING ''Started preparing'',
                      Transition ''o1'' READY ''Food is ready for pickup''].
              isTransition a \<and> \<not> completes a"
    by (simp add: PREPARING_def READY_def COMPLETED_def)
  have h3: "findIndex (\<lambda>x. oid x = ''o1'') (getAllOrders exPlaced) = Some 0"
    by (simp add: exPlaced_orders exOrder_def)
  have old: "map completedAt (getAllOrders exPlaced) = [None]"
    by (simp add: exPlaced_orders exOrder_def PENDING_def COMPLETED_def)
  have clk: "clock exEnv (reads exPlaced + 2) = 1767268800007"
    by (simp add: exEnv_def exPlaced_def)
  from completedAt_written_by_completion_only
         [where s = PREPARING and E = exEnv and i = "''o1''" and n = "[]" and w = exPlaced
            and k = 0
            and acts = "[Transition ''o1'' PREPARING ''Started preparing'',
                         Transition ''o1'' READY ''Food is ready for pickup'']"]
       h1 h2 h3 old clk
  show ?thesis by simp
qed

text \<open>
  C7 as stated fails: nothing refuses a second transition to completed, and it writes the
  field again, with a later reading of the clock.
\<close>

theorem completedAt_rewritten_counterexample:
  "map completedAt (getAllOrders (run exEnv [Transition ''o1'' COMPLETED []] exPlaced))
     = [Some 1767268800007]
   \<and> map completedAt (getAllOrders (run exEnv [Transition ''o1'' COMPLETED [],
                                                 Transition ''o1'' COMPLETED []] exPlaced))
     = [Some 1767268800010]"
  by (simp add: updateOrderStatus_def exPlaced_def getAllOrders_def Let_def split_def
      exOrder_def now_def exEnv_def)

subsection \<open>The queue of active orders\<close>

text \<open>
  C9. \<open>getActiveOrders\<close> returns exactly the stored orders whose status is pending,
  preparing or ready, each as often as it is stored, in ascending order of \<open>createdAt\<close>. In
  particular, on a collection of one pending, one preparing, one completed and one
  cancelled order it returns the pending and the preparing order and nothing else.
\<close>

theorem getActiveOrders_filter_sorted:
  "mset (getActiveOrders w) =
     filter_mset (\<lambda>x. status x = PENDING \<or> status x = PREPARING \<or> status x = READY)
       (mset (getAllOrders w))
   \<and> sorted (map createdAt (getActiveOrders w))
   \<and> (mset (getAllOrders w) = {#a, b, c, d#} \<and> status a = PENDING \<and> status b = PREPARING
        \<and> status c = COMPLETED \<and> status d = CANCELLED
      \<longrightarrow> getActiveOrders w = [a, b] \<or> getActiveOrders w = [b, a])"
proof (intro conjI impI)
  show m: "mset (getActiveOrders w) =
     filter_mset (\<lambda>x. status x = PENDING \<or> status x = PREPARING \<or> status x = READY)
       (mset (getAllOrders w))"
    by (simp add: getActiveOrders_sort_key)
  show "sorted (map createdAt (getActiveOrders w))"
    by (simp add: getActiveOrders_sort_key)
  assume h: "mset (getAllOrders w) = {#a, b, c, d#} \<and> status a = PENDING
    \<and> status b = PREPARING \<and> status c = COMPLETED \<and> status d = CANCELLED"
  then have "mset (getActiveOrders w) = {#a, b#}"
    unfolding m by (simp add: PENDING_def PREPARING_def READY_def COMPLETED_def CANCELLED_def)
  then show "getActiveOrders w = [a, b] \<or> getActiveOrders w = [b, a]"
    by (rule mset_two_lists)
qed

theorem getActiveOrders_filter_sorted_witness:
  "mset (getAllOrders exQueue) =
     {#exOrder ''o4'' ''TKN-20260101-0004'' PENDING 1767263400000,
       exOrder ''o2'' ''TKN-20260101-0002'' PREPARING 1767265200000,
       exOrder ''o1'' ''TKN-20260101-0001'' COMPLETED 1767258000000,
       exOrder ''o3'' ''TKN-20260101-0003'' CANCELLED 1767261600000#}
   \<and> getActiveOrders exQueue =
       [exOrder ''o4'' ''TKN-20260101-0004'' PENDING 1767263400000,
        exOrder ''o2'' ''TKN-20260101-0002'' PREPARING 1767265200000]"
proof -
  have h: "mset (getAllOrders exQueue) =
     {#exOrder ''o4'' ''TKN-20260101-0004'' PENDING 1767263400000,
       exOrder ''o2'' ''TKN-20260101-0002'' PREPARING 1767265200000,
       exOrder ''o1'' ''TKN-20260101-0001'' COMPLETED 1767258000000,
       exOrder ''o3'' ''TKN-20260101-0003'' CANCELLED 1767261600000#}"
    by (simp add: getAllOrders_def exQueue_def)
  have st: "status (exOrder i tok st t) = st" for i tok st t
    by (simp add: exOrder_def)
  have ct: "createdAt (exOrder i tok st t) = t" for i tok st t
    by (simp add: exOrder_def)
  from getActiveOrders_filter_sorted
         [where w = exQueue
            and a = "exOrder ''o4'' ''TKN-20260101-0004'' PENDING 1767263400000"
            and b = "exOrder ''o2'' ''TKN-20260101-0002'' PREPARING 1767265200000"
            and c = "exOrder ''o1'' ''TKN-20260101-0001'' COMPLETED 1767258000000"
            and d = "exOrder ''o3'' ''TKN-20260101-0003'' CANCELLED 1767261600000"] h
  have s: "sorted (map createdAt (getActiveOrders exQueue))"
    and alt: "getActiveOrders exQueue =
       [exOrder ''o4'' ''TKN-20260101-0004'' PENDING 1767263400000,
        exOrder ''o2'' ''TKN-20260101-0002'' PREPARING 1767265200000]
     \<or> getActiveOrders exQueue =
       [exOrder ''o2'' ''TKN-20260101-0002'' PREPARING 1767265200000,
        exOrder ''o4'' ''TKN-20260101-0004'' PENDING 1767263400000]"
    by (simp_all add: st)
  from alt s have "getActiveOrders exQueue =
       [exOrder ''o4'' ''TKN-20260101-0004'' PENDING 1767263400000,
        exOrder ''o2'' ''TKN-20260101-0002'' PREPARING 1767265200000]"
    by (auto simp: ct)
  with h show ?thesis by blast
qed

subsection \<open>The daily report\<close>



subsection \<open>Status and history over any sequence of operations\<close>

text \<open>
  C3. Over every sequence of order creations and status transitions, with any status
  arguments: no order leaves the collection, the history of every order is only extended at
  its end (every earlier entry stays, unchanged and in place), an order whose status was the
  status of its last history entry still has that property afterwards, and every order that
  was created in between has it. Hence, if it holds of every stored order, it holds of every
  stored order after the sequence.
\<close>

theorem status_follows_history:
  "length (getAllOrders w) \<le> length (getAllOrders (run E acts w))
   \<and> (\<forall>k<length (getAllOrders w).
         prefix (statusHistory (getAllOrders w ! k))
                (statusHistory (getAllOrders (run E acts w) ! k))
         \<and> (statusMatchesHistory (getAllOrders w ! k)
              \<longrightarrow> statusMatchesHistory (getAllOrders (run E acts w) ! k)))
   \<and> (\<forall>k. length (getAllOrders w) \<le> k \<and> k < length (getAllOrders (run E acts w))
         \<longrightarrow> statusMatchesHistory (getAllOrders (run E acts w) ! k))
   \<and> ((\<forall>x\<in>set (getAllOrders w). statusMatchesHistory x)
        \<longrightarrow> (\<forall>x\<in>set (getAllOrders (run E acts w)). statusMatchesHistory x))"
proof -
  have c: "carriesOn (getAllOrders w) (getAllOrders (run E acts w))"
    by (rule run_carriesOn)
  have "\<forall>x\<in>set (getAllOrders (run E acts w)). statusMatchesHistory x"
    if all: "\<forall>x\<in>set (getAllOrders w). statusMatchesHistory x"
  proof
    fix x assume "x \<in> set (getAllOrders (run E acts w))"
    then obtain k where k: "k < length (getAllOrders (run E acts w))"
      "x = getAllOrders (run E acts w) ! k"
      by (auto simp: in_set_conv_nth)
    show "statusMatchesHistory x"
    proof (cases "k < length (getAllOrders w)")
      case True
      with all have "statusMatchesHistory (getAllOrders w ! k)" by simp
      with True c k show ?thesis by (simp add: carriesOn_def)
    next
      case False
      with c k show ?thesis by (simp add: carriesOn_def)
    qed
  qed
  with c show ?thesis
    by (simp add: carriesOn_def)
qed

theorem status_follows_history_witness:
  "length (getAllOrders exPlaced) = 1
   \<and> statusMatchesHistory (getAllOrders exPlaced ! 0)
   \<and> length (getAllOrders (run exEnv exDay exPlaced)) = 2
   \<and> prefix (statusHistory (getAllOrders exPlaced ! 0))
             (statusHistory (getAllOrders (run exEnv exDay exPlaced) ! 0))
   \<and> statusMatchesHistory (getAllOrders (run exEnv exDay exPlaced) ! 0)
   \<and> statusMatchesHistory (getAllOrders (run exEnv exDay exPlaced) ! 1)
   \<and> map status (getAllOrders (run exEnv exDay exPlaced)) = [''completed'', ''pending'']
   \<and> map (\<lambda>x. map h_status (statusHistory x)) (getAllOrders (run exEnv exDay exPlaced))
       = [[''pending'', ''preparing'', ''ready'', ''completed''], [''pending'']]"
proof -
  have l0: "length (getAllOrders exPlaced) = 1"
    by (simp add: exPlaced_orders)
  have m0: "statusMatchesHistory (getAllOrders exPlaced ! 0)"
    by (simp add: exPlaced_orders exOrder_def statusMatchesHistory_def)
  have l1: "length (getAllOrders (run exEnv exDay exPlaced)) = 2"
    using exDay_run(1) by (metis length_map length_Cons list.size(3) One_nat_def Suc_1)
  note t = status_follows_history [of exPlaced exEnv exDay]
  from t l0 have p: "prefix (statusHistory (getAllOrders exPlaced ! 0))
             (statusHistory (getAllOrders (run exEnv exDay exPlaced) ! 0))"
    by simp
  from t l0 m0 have m1: "statusMatchesHistory (getAllOrders (run exEnv exDay exPlaced) ! 0)"
    by simp
  from t l0 l1 have m2: "statusMatchesHistory (getAllOrders (run exEnv exDay exPlaced) ! 1)"
    by simp
  from l0 m0 l1 p m1 m2 exDay_run show ?thesis by blast
qed

subsection \<open>Pickup tokens over a day\<close>

text \<open>
  C2. Take any sequence of order creations and status transitions, run one after the other,
  during which every reading of the clock falls on the same calendar day \<open>D\<close>. Then one order
  is stored for each creation with a cart that is not empty; the token of the j-th of them
  (from 0) is \<open>TKN-\<close>, the year, the month and the day of \<open>D\<close>, a hyphen, and the number of
  orders of day \<open>D\<close> stored at the start plus j plus 1, which is the number of orders of that
  day stored when it is created plus 1, padded with zeros to four digits; each of these
  orders is created on day \<open>D\<close>; the numbers read back from the tokens are consecutive and
  so strictly increasing in creation order; the tokens are pairwise distinct; and for a year
  of four digits and at most 9999 orders on the day, every token has the shape
  \<open>TKN-YYYYMMDD-NNNN\<close>.
\<close>

theorem tokens_sequential:
  assumes "\<forall>n. reads w \<le> n \<and> n < reads (run E acts w) \<longrightarrow> toDateString E (clock E n) = D"
  shows "length (getAllOrders (run E acts w))
           = length (getAllOrders w) + length (filter places acts)
       \<and> map token (drop (length (getAllOrders w)) (getAllOrders (run E acts w)))
           = map (\<lambda>j. tokenOf D (sameDayCount E D (getAllOrders w) + 1 + j))
               [0..<length (filter places acts)]
       \<and> list_all (\<lambda>x. toDateString E (createdAt x) = D)
            (drop (length (getAllOrders w)) (getAllOrders (run E acts w)))
       \<and> map (\<lambda>x. tokenSeq (token x))
            (drop (length (getAllOrders w)) (getAllOrders (run E acts w)))
           = [sameDayCount E D (getAllOrders w) + 1
              ..<sameDayCount E D (getAllOrders w) + 1 + length (filter places acts)]
       \<and> sorted_wrt (<) (map (\<lambda>x. tokenSeq (token x))
            (drop (length (getAllOrders w)) (getAllOrders (run E acts w))))
       \<and> distinct (map token (drop (length (getAllOrders w)) (getAllOrders (run E acts w))))
       \<and> (1000 \<le> fullYear D \<and> fullYear D \<le> 9999 \<and> month0 D \<le> 11 \<and> dayOfMonth D \<le> 31
            \<and> sameDayCount E D (getAllOrders w) + length (filter places acts) \<le> 9999
          \<longrightarrow> list_all (\<lambda>x. tokenFormat (token x))
                (drop (length (getAllOrders w)) (getAllOrders (run E acts w))))"
proof -
  let ?old = "getAllOrders w"
  let ?fin = "getAllOrders (run E acts w)"
  let ?new = "drop (length ?old) ?fin"
  let ?N = "length (filter places acts)"
  let ?k = "sameDayCount E D ?old"
  from run_tokens [OF assms] have
    T: "map token ?fin = map token ?old @ map (\<lambda>j. tokenOf D (?k + 1 + j)) [0..<?N]"
    and C: "map (\<lambda>x. toDateString E (createdAt x)) ?fin =
            map (\<lambda>x. toDateString E (createdAt x)) ?old @ replicate ?N D"
    by simp_all
  from T have "length (map token ?fin) = length ?old + ?N"
    by (simp only: length_append length_map length_upt)
  then have len: "length ?fin = length ?old + ?N" by simp
  have "map token ?new = drop (length (map token ?old)) (map token ?fin)"
    by (simp add: drop_map)
  then have tok: "map token ?new = map (\<lambda>j. tokenOf D (?k + 1 + j)) [0..<?N]"
    unfolding T by simp
  have "map (\<lambda>x. toDateString E (createdAt x)) ?new =
        drop (length (map (\<lambda>x. toDateString E (createdAt x)) ?old))
          (map (\<lambda>x. toDateString E (createdAt x)) ?fin)"
    by (simp add: drop_map)
  then have "map (\<lambda>x. toDateString E (createdAt x)) ?new = replicate ?N D"
    unfolding C by simp
  then have "\<forall>d\<in>set (map (\<lambda>x. toDateString E (createdAt x)) ?new). d = D"
    by simp
  then have days: "list_all (\<lambda>x. toDateString E (createdAt x) = D) ?new"
    by (simp add: list_all_iff)
  have "map (\<lambda>x. tokenSeq (token x)) ?new = map tokenSeq (map token ?new)"
    by simp
  also have "\<dots> = map (\<lambda>j. ?k + 1 + j) [0..<?N]"
    unfolding tok by (simp add: tokenSeq_tokenOf)
  also have "\<dots> = [?k + 1..<?k + 1 + ?N]"
    by (rule upt_offset)
  finally have seq: "map (\<lambda>x. tokenSeq (token x)) ?new = [?k + 1..<?k + 1 + ?N]" .
  have srt: "sorted_wrt (<) (map (\<lambda>x. tokenSeq (token x)) ?new)"
    unfolding seq by (rule sorted_wrt_upt)
  have "inj_on (\<lambda>j. tokenOf D (?k + 1 + j)) (set [0..<?N])"
    by (rule inj_onI) (auto dest: tokenOf_inj)
  then have dist: "distinct (map token ?new)"
    unfolding tok by (simp add: distinct_map)
  have fmt: "list_all (\<lambda>x. tokenFormat (token x)) ?new"
    if b: "1000 \<le> fullYear D \<and> fullYear D \<le> 9999 \<and> month0 D \<le> 11 \<and> dayOfMonth D \<le> 31
            \<and> ?k + ?N \<le> 9999"
  proof -
    have "tokenFormat (tokenOf D (?k + 1 + j))" if "j < ?N" for j
      using b that by (intro tokenFormat_tokenOf) auto
    then have "\<forall>t\<in>set (map token ?new). tokenFormat t"
      unfolding tok by auto
    then show ?thesis by (simp add: list_all_iff)
  qed
  from len tok days seq srt dist fmt show ?thesis by blast
qed

theorem tokens_sequential_witness:
  "list_all (\<lambda>n. toDateString exEnv (clock exEnv n) = exNewYear)
     [reads exPlaced..<reads (run exEnv exLunch exPlaced)]
   \<and> length (getAllOrders exPlaced) = 1
   \<and> length (getAllOrders (run exEnv exLunch exPlaced)) = 3
   \<and> map token (drop 1 (getAllOrders (run exEnv exLunch exPlaced)))
       = [''TKN-20260101-0002'', ''TKN-20260101-0003'']
   \<and> map (\<lambda>x. tokenSeq (token x)) (drop 1 (getAllOrders (run exEnv exLunch exPlaced)))
       = [2, 3]
   \<and> distinct (map token (drop 1 (getAllOrders (run exEnv exLunch exPlaced))))
   \<and> list_all (\<lambda>x. tokenFormat (token x))
        (drop 1 (getAllOrders (run exEnv exLunch exPlaced)))"
proof -
  have day: "toDateString exEnv (clock exEnv n) = exNewYear"
    if "n < reads (run exEnv exLunch exPlaced)" for n
    using that by (intro exEnv_noon) (simp add: exLunch_reads)
  then have h: "\<forall>n. reads exPlaced \<le> n \<and> n < reads (run exEnv exLunch exPlaced)
                 \<longrightarrow> toDateString exEnv (clock exEnv n) = exNewYear"
    by simp
  from day have h': "list_all (\<lambda>n. toDateString exEnv (clock exEnv n) = exNewYear)
     [reads exPlaced..<reads (run exEnv exLunch exPlaced)]"
    by (simp add: list_all_iff)
  have l: "length (getAllOrders exPlaced) = 1"
    by (simp add: exPlaced_orders)
  have p: "length (filter places exLunch) = 2"
    by (simp add: exLunch_def exCart_def)
  have b: "1000 \<le> fullYear exNewYear \<and> fullYear exNewYear \<le> 9999 \<and> month0 exNewYear \<le> 11
           \<and> dayOfMonth exNewYear \<le> 31
           \<and> sameDayCount exEnv exNewYear (getAllOrders exPlaced) + length (filter places exLunch)
               \<le> 9999"
    by (simp add: exPlaced_count p, simp add: exNewYear_def)
  have u: "[0..<2] = [0, Suc 0]" "[2..<4] = [2, 3::nat]"
    by (simp_all add: upt_rec)
  have t: "tokenOf exNewYear (Suc (Suc 0)) = ''TKN-20260101-0002''"
    "tokenOf exNewYear (Suc (Suc (Suc 0))) = ''TKN-20260101-0003''"
    using exNewYear_tokens by (simp_all add: numeral_2_eq_2 numeral_3_eq_3)
  from tokens_sequential [OF h] b
  show ?thesis
    by (simp add: h' l p exPlaced_count u t)
qed

end
